theory Spec2Isabelle
  imports Complex_Main "HOL-Library.Log_Nat"
begin

section \<open>Numbers, errors and the FITS header\<close>

text \<open>
  The notebooks compute on 64-bit floating-point numbers. The cells are modelled twice.
  First in exact arithmetic, on real numbers: this says which value each expression
  denotes. There two things a real number cannot carry are made explicit as error values:
  \<^item> a Python exception (\<open>KeyError\<close> from \<open>hdr[...]\<close>, \<open>ZeroDivisionError\<close> from
    the division of two header values, which are Python floats, \<open>NameError\<close> from a
    variable that no cell has assigned yet);
  \<^item> a numpy result that is \<open>inf\<close> or \<open>nan\<close>: a numpy division by zero, the
    square root of a negative number, the standard deviation of an empty array. With
    \<open>warnings.simplefilter('ignore')\<close> in force numpy raises nothing there and the
    non-finite value flows on to the printed result; the exact model reports it as
    \<open>NonFinite\<close>. An exception raised later in the same expression still wins over
    it, so the model looks for the exceptions first.

  Then the two uncertainty cells are modelled on float64 values, with rounding, overflow,
  infinities and nan: this says what depends on the range and the precision of the
  numbers, among it the \<open>OverflowError\<close> that Python raises when a float power
  overflows.
\<close>

datatype error =
  KeyError string | NameError string | ZeroDivisionError | OverflowError | NonFinite

type_synonym header = "string \<rightharpoonup> real"

definition bind_e :: "error + 'a \<Rightarrow> ('a \<Rightarrow> error + 'b) \<Rightarrow> error + 'b" where
  "bind_e m f = (case m of Inl e \<Rightarrow> Inl e | Inr x \<Rightarrow> f x)"

definition hdr_get :: "header \<Rightarrow> string \<Rightarrow> error + real" where
  \<comment> \<open>\<open>hdr[key]\<close>\<close>
  "hdr_get h key = (case h key of None \<Rightarrow> Inl (KeyError key) | Some v \<Rightarrow> Inr v)"

definition var :: "string \<Rightarrow> 'a option \<Rightarrow> error + 'a" where
  \<comment> \<open>reading a notebook variable\<close>
  "var name v = (case v of None \<Rightarrow> Inl (NameError name) | Some x \<Rightarrow> Inr x)"

definition py_truediv :: "real \<Rightarrow> real \<Rightarrow> error + real" where
  \<comment> \<open>\<open>a / b\<close> on Python floats\<close>
  "py_truediv a b = (if b = 0 then Inl ZeroDivisionError else Inr (a / b))"

definition np_truediv :: "real \<Rightarrow> real \<Rightarrow> error + real" where
  \<comment> \<open>\<open>a / b\<close> on numpy float64 values\<close>
  "np_truediv a b = (if b = 0 then Inl NonFinite else Inr (a / b))"

definition np_sqrt :: "real \<Rightarrow> error + real" where
  "np_sqrt x = (if x < 0 then Inl NonFinite else Inr (sqrt x))"

section \<open>The uncertainty cells of the photometry notebook\<close>

text \<open>
  \<^verbatim>\<open>
  sigma_m = np.sqrt(
      (
          2 * np.pi * (r_ap * annulus_std / flux_background_subtracted) ** 2
          + (hdr["ERRCALF"] / hdr["CALFCTR"]) ** 2
          + (0.05) **2
      )
  )
  \<close>
  \<open>annulus_std\<close> and \<open>flux_background_subtracted\<close> are numpy scalars, the two
  header values are Python floats.
\<close>

definition radicand :: "real \<Rightarrow> real \<Rightarrow> real \<Rightarrow> real" where
  "radicand x q m = 2 * pi * x ^ 2 + q ^ 2 + m ^ 2"

definition calc_sigma_m :: "real \<Rightarrow> real \<Rightarrow> real \<Rightarrow> header \<Rightarrow> error + real" where
  "calc_sigma_m r_ap annulus_std flux_background_subtracted hdr =
     bind_e (hdr_get hdr ''ERRCALF'') (\<lambda>errcalf.
     bind_e (hdr_get hdr ''CALFCTR'') (\<lambda>calfctr.
     bind_e (py_truediv errcalf calfctr) (\<lambda>q.
     bind_e (np_truediv (r_ap * annulus_std) flux_background_subtracted) (\<lambda>x.
     np_sqrt (radicand x q 0.05)))))"

text \<open>\<^verbatim>\<open>absolute_uncertainty = sigma_m*flux_background_subtracted\<close>\<close>

definition calc_absolute_uncertainty :: "real \<Rightarrow> real \<Rightarrow> real" where
  "calc_absolute_uncertainty sigma_m flux_background_subtracted =
     sigma_m * flux_background_subtracted"

section \<open>The uncertainty cells on float64 values\<close>

text \<open>
  A float64 is a finite number (\<open>Finite 0\<close> is the positive zero), the negative zero, an
  infinity or nan. An operation returns the exact result rounded to the nearest float64,
  ties to the even significand: 53 significant bits, exponents down to \<open>-1022\<close>,
  subnormal numbers below, an infinity from \<open>2\<^sup>1\<^sup>0\<^sup>2\<^sup>4\<close> on.
\<close>

datatype f64 = Finite real | NegZero | PosInf | NegInf | NaN

definition round_even :: "real \<Rightarrow> int" where
  "round_even x =
     (let f = \<lfloor>x\<rfloor>; d = x - of_int f
      in if d < 1 / 2 then f else if 1 / 2 < d then f + 1 else if even f then f else f + 1)"

definition pow2 :: "int \<Rightarrow> real" where
  "pow2 e = (if 0 \<le> e then 2 ^ nat e else 1 / 2 ^ nat (- e))"

text \<open>The exponent of the binade of a positive number: \<open>2\<^sup>k \<le> x < 2\<^sup>k\<^sup>+\<^sup>1\<close>.\<close>

definition ilog2 :: "real \<Rightarrow> int" where
  "ilog2 x =
     (if 1 \<le> x then bitlen \<lfloor>x\<rfloor> - 1
      else let j = bitlen \<lfloor>1 / x\<rfloor> - 1 in if x * 2 ^ nat j = 1 then - j else - j - 1)"

text \<open>Rounding to a multiple of \<open>2\<^sup>e\<close>.\<close>

definition rnd :: "int \<Rightarrow> real \<Rightarrow> real" where
  "rnd e x = of_int (round_even (x / pow2 e)) * pow2 e"

text \<open>
  Rounding a real number to float64. The flag is the sign of the exact operation, which
  a result that rounds to zero keeps.
\<close>

definition fl64 :: "bool \<Rightarrow> real \<Rightarrow> f64" where
  "fl64 neg x =
     (if x = 0 then (if neg then NegZero else Finite 0)
      else let y = rnd (max (ilog2 \<bar>x\<bar>) (- 1022) - 52) x
           in if y = 0 then (if neg then NegZero else Finite 0)
              else if pow2 1024 \<le> \<bar>y\<bar> then (if 0 < x then PosInf else NegInf)
              else Finite y)"

fun is_nan :: "f64 \<Rightarrow> bool" where
  "is_nan NaN = True"
| "is_nan _ = False"

fun is_inf :: "f64 \<Rightarrow> bool" where
  "is_inf PosInf = True"
| "is_inf NegInf = True"
| "is_inf _ = False"

fun is_zero :: "f64 \<Rightarrow> bool" where
  "is_zero (Finite x) = (x = 0)"
| "is_zero NegZero = True"
| "is_zero _ = False"

fun sign_bit :: "f64 \<Rightarrow> bool" where
  "sign_bit (Finite x) = (x < 0)"
| "sign_bit NegZero = True"
| "sign_bit NegInf = True"
| "sign_bit _ = False"

fun val :: "f64 \<Rightarrow> real" where
  "val (Finite x) = x"
| "val _ = 0"

definition inf_of :: "bool \<Rightarrow> f64" where
  "inf_of neg = (if neg then NegInf else PosInf)"

definition zero_of :: "bool \<Rightarrow> f64" where
  "zero_of neg = (if neg then NegZero else Finite 0)"

text \<open>The float64 operations \<open>*\<close>, \<open>/\<close>, \<open>+\<close> and \<open>np.sqrt\<close>.\<close>

definition fmul :: "f64 \<Rightarrow> f64 \<Rightarrow> f64" where
  "fmul a b =
     (if is_nan a \<or> is_nan b then NaN
      else if is_inf a \<or> is_inf b
           then (if is_zero a \<or> is_zero b then NaN else inf_of (sign_bit a \<noteq> sign_bit b))
      else fl64 (sign_bit a \<noteq> sign_bit b) (val a * val b))"

definition fdiv :: "f64 \<Rightarrow> f64 \<Rightarrow> f64" where
  \<comment> \<open>the numpy division: no exception at a zero divisor\<close>
  "fdiv a b =
     (if is_nan a \<or> is_nan b then NaN
      else if is_inf a then (if is_inf b then NaN else inf_of (sign_bit a \<noteq> sign_bit b))
      else if is_inf b then zero_of (sign_bit a \<noteq> sign_bit b)
      else if is_zero b then (if is_zero a then NaN else inf_of (sign_bit a \<noteq> sign_bit b))
      else fl64 (sign_bit a \<noteq> sign_bit b) (val a / val b))"

definition fadd :: "f64 \<Rightarrow> f64 \<Rightarrow> f64" where
  "fadd a b =
     (if is_nan a \<or> is_nan b then NaN
      else if is_inf a then (if is_inf b \<and> a \<noteq> b then NaN else a)
      else if is_inf b then b
      else if is_zero a \<and> is_zero b then zero_of (sign_bit a \<and> sign_bit b)
      else fl64 False (val a + val b))"

fun fsqrt :: "f64 \<Rightarrow> f64" where
  "fsqrt (Finite x) = (if x < 0 then NaN else fl64 False (sqrt x))"
| "fsqrt NegZero = NegZero"
| "fsqrt PosInf = PosInf"
| "fsqrt NegInf = NaN"
| "fsqrt NaN = NaN"

text \<open>
  The division of two header values is a division of Python floats: it raises at a zero
  divisor and returns an infinity when the quotient overflows. \<open>x ** 2\<close> is the
  rounded product of \<open>x\<close> with itself; on a Python float it raises \<open>OverflowError\<close>
  when the result of a finite \<open>x\<close> overflows, on a numpy scalar it returns the infinity.
\<close>

definition py_truediv_f64 :: "real \<Rightarrow> real \<Rightarrow> error + f64" where
  "py_truediv_f64 a b = (if b = 0 then Inl ZeroDivisionError else Inr (fdiv (Finite a) (Finite b)))"

definition py_pow2 :: "f64 \<Rightarrow> error + f64" where
  "py_pow2 x = (let y = fmul x x in if is_inf y \<and> \<not> is_inf x then Inl OverflowError else Inr y)"

text \<open>
  The \<open>sigma_m\<close> cell, in Python's order of evaluation: the numpy term, the two header
  values, their quotient and its square, the square of the literal \<open>0.05\<close>, the two
  sums and the square root. \<open>np.pi\<close> and \<open>0.05\<close> are the float64 numbers nearest to
  \<open>\<pi>\<close> and to 0.05.
\<close>

definition sigma_m_f64 :: "f64 \<Rightarrow> f64 \<Rightarrow> f64 \<Rightarrow> header \<Rightarrow> error + f64" where
  "sigma_m_f64 r_ap annulus_std flux_background_subtracted hdr =
     (let x = fdiv (fmul r_ap annulus_std) flux_background_subtracted;
          t = fmul (fmul (Finite 2) (fl64 False pi)) (fmul x x)
      in bind_e (hdr_get hdr ''ERRCALF'') (\<lambda>errcalf.
         bind_e (hdr_get hdr ''CALFCTR'') (\<lambda>calfctr.
         bind_e (py_truediv_f64 errcalf calfctr) (\<lambda>q.
         bind_e (py_pow2 q) (\<lambda>q2.
         bind_e (py_pow2 (fl64 False 0.05)) (\<lambda>m2.
         Inr (fsqrt (fadd (fadd t q2) m2))))))))"


section \<open>The photometry cells\<close>

text \<open>
  The image \<open>data[0].data\<close> is a two-dimensional array, a list of rows of pixels.
  Apertures are values of \<open>photutils\<close>. Its functions are not code of this repository:
  the cells only call them, and the model takes them as parameters, gathered in a
  record. \<open>aperture_photometry\<close> stands for the \<open>aperture_sum\<close> entry of the table the
  library returns, \<open>aperture_area\<close> for the attribute \<open>.area\<close>, and \<open>to_mask_multiply\<close>
  for \<open>aperture.to_mask(method="center").multiply(data)\<close>. The library validates the
  radii when an aperture is built; that check is inside the library as well and is not
  modelled.
\<close>

type_synonym image = "real list list"

datatype aperture =
    CircularAperture "real \<times> real" real
  | CircularAnnulus "real \<times> real" real real

record photutils =
  aperture_photometry :: "image \<Rightarrow> aperture \<Rightarrow> real"
  aperture_area :: "aperture \<Rightarrow> real"
  to_mask_multiply :: "aperture \<Rightarrow> image \<Rightarrow> image"

text \<open>
  \<^verbatim>\<open>
  def get_aperture_sum(data, pos_pix, r_pix):
      pix_aperture = CircularAperture(pos_pix, r=r_pix)
      sum_aperture = aperture_photometry(data[0].data, pix_aperture)
      area = pix_aperture.area
      return sum_aperture["aperture_sum"], pix_aperture, area
  \<close>
\<close>

definition get_aperture_sum ::
  "photutils \<Rightarrow> image \<Rightarrow> real \<times> real \<Rightarrow> real \<Rightarrow> real \<times> aperture \<times> real" where
  "get_aperture_sum L data pos_pix r_pix =
     (let pix_aperture = CircularAperture pos_pix r_pix;
          sum_aperture = aperture_photometry L data pix_aperture;
          area = aperture_area L pix_aperture
      in (sum_aperture, pix_aperture, area))"

text \<open>\<open>np.std\<close> of an array, flattened: the population standard deviation.\<close>

definition np_std :: "image \<Rightarrow> error + real" where
  "np_std a =
     (let xs = concat a
      in if xs = [] then Inl NonFinite
         else let n = real (length xs); mean = sum_list xs / n
              in Inr (sqrt (sum_list (map (\<lambda>x. (x - mean) ^ 2) xs) / n)))"

text \<open>
  The state of a notebook session: the loaded image and header, whatever persists
  outside the session (\<open>disk\<close>, of any type), the user options, and the variables the
  cells assign, \<open>None\<close> until the cell has run.
\<close>

record 'd notebook =
  data0 :: image
  hdr :: header
  disk :: 'd
  r_ap :: real
  background_aperture_inner_radius :: real
  background_aperture_outter_radius :: real
  pos_pix :: "real \<times> real"
  sum_jy :: "real option"
  pix_aperture :: "aperture option"
  area :: "real option"
  annulus_aperture :: "aperture option"
  bkg_mean :: "real option"
  flux_background_subtracted :: "real option"
  annulus_std :: "real option"
  sigma_m :: "real option"
  absolute_uncertainty :: "real option"

text \<open>
  The session once the file is loaded and the cell of user options has run:
  \<^verbatim>\<open>
  r_ap = 12
  background_aperture_inner_radius = 15.0
  background_aperture_outter_radius = 25.0
  \<close>
  The image and the header come from the FITS file, the pixel position of the target
  from the library's coordinate transformation.
\<close>

definition loaded_session :: "image \<Rightarrow> header \<Rightarrow> 'd \<Rightarrow> real \<times> real \<Rightarrow> 'd notebook" where
  "loaded_session img h d pos =
     \<lparr>data0 = img, hdr = h, disk = d,
      r_ap = 12,
      background_aperture_inner_radius = 15,
      background_aperture_outter_radius = 25,
      pos_pix = pos,
      sum_jy = None, pix_aperture = None, area = None, annulus_aperture = None,
      bkg_mean = None, flux_background_subtracted = None, annulus_std = None,
      sigma_m = None, absolute_uncertainty = None\<rparr>"

text \<open>\<^verbatim>\<open>sum_jy, pix_aperture, area = get_aperture_sum(data, pos_pix, r_ap)\<close>\<close>

definition cell_aperture_sum :: "photutils \<Rightarrow> 'd notebook \<Rightarrow> error + 'd notebook" where
  "cell_aperture_sum L s =
     (case get_aperture_sum L (data0 s) (pos_pix s) (r_ap s) of
        (sj, ap, a) \<Rightarrow> Inr (s\<lparr>sum_jy := Some sj, pix_aperture := Some ap, area := Some a\<rparr>))"

text \<open>
  \<^verbatim>\<open>
  annulus_aperture = CircularAnnulus(
      pos_pix,
      r_in=background_aperture_inner_radius,
      r_out=background_aperture_outter_radius,
  )
  \<close>
\<close>

definition cell_annulus :: "photutils \<Rightarrow> 'd notebook \<Rightarrow> error + 'd notebook" where
  "cell_annulus L s =
     Inr (s\<lparr>annulus_aperture :=
              Some (CircularAnnulus (pos_pix s) (background_aperture_inner_radius s)
                      (background_aperture_outter_radius s))\<rparr>)"

text \<open>
  \<^verbatim>\<open>
  bkg_results = aperture_photometry(data[0].data, annulus_aperture)
  bkg_mean = bkg_results["aperture_sum"] / annulus_aperture.area
  flux_background_subtracted = sum_jy[0] - bkg_mean[0]
  \<close>
\<close>

definition cell_background :: "photutils \<Rightarrow> 'd notebook \<Rightarrow> error + 'd notebook" where
  "cell_background L s =
     bind_e (var ''annulus_aperture'' (annulus_aperture s)) (\<lambda>ann.
     bind_e (var ''sum_jy'' (sum_jy s)) (\<lambda>sj.
     bind_e (np_truediv (aperture_photometry L (data0 s) ann) (aperture_area L ann)) (\<lambda>bm.
     Inr (s\<lparr>bkg_mean := Some bm, flux_background_subtracted := Some (sj - bm)\<rparr>))))"

text \<open>
  \<^verbatim>\<open>
  annulus_mask = annulus_aperture.to_mask(method="center")
  annulus_data = annulus_mask.multiply(data[0].data)
  annulus_std = np.std(annulus_data)
  \<close>
\<close>

definition cell_annulus_std :: "photutils \<Rightarrow> 'd notebook \<Rightarrow> error + 'd notebook" where
  "cell_annulus_std L s =
     bind_e (var ''annulus_aperture'' (annulus_aperture s)) (\<lambda>ann.
     bind_e (np_std (to_mask_multiply L ann (data0 s))) (\<lambda>sd.
     Inr (s\<lparr>annulus_std := Some sd\<rparr>)))"

definition cell_sigma_m :: "photutils \<Rightarrow> 'd notebook \<Rightarrow> error + 'd notebook" where
  "cell_sigma_m L s =
     bind_e (var ''annulus_std'' (annulus_std s)) (\<lambda>sd.
     bind_e (var ''flux_background_subtracted'' (flux_background_subtracted s)) (\<lambda>f.
     bind_e (calc_sigma_m (r_ap s) sd f (hdr s)) (\<lambda>sm.
     Inr (s\<lparr>sigma_m := Some sm\<rparr>))))"

definition cell_absolute_uncertainty :: "photutils \<Rightarrow> 'd notebook \<Rightarrow> error + 'd notebook" where
  "cell_absolute_uncertainty L s =
     bind_e (var ''sigma_m'' (sigma_m s)) (\<lambda>sm.
     bind_e (var ''flux_background_subtracted'' (flux_background_subtracted s)) (\<lambda>f.
     Inr (s\<lparr>absolute_uncertainty := Some (calc_absolute_uncertainty sm f)\<rparr>)))"

text \<open>Running cells one after the other; an exception stops the run.\<close>

fun run_cells :: "('s \<Rightarrow> error + 's) list \<Rightarrow> 's \<Rightarrow> error + 's" where
  "run_cells [] s = Inr s"
| "run_cells (c # cs) s = bind_e (c s) (run_cells cs)"

definition photometry_cells :: "photutils \<Rightarrow> ('d notebook \<Rightarrow> error + 'd notebook) list" where
  "photometry_cells L =
     [cell_aperture_sum L, cell_annulus L, cell_background L, cell_annulus_std L,
      cell_sigma_m L, cell_absolute_uncertainty L]"

section \<open>The uncertainty expression as a program\<close>

text \<open>
  The expression of \<open>sigma_m\<close> as Python parses it: \<open>**\<close> binds tighter than
  \<open>*\<close> and \<open>/\<close>, which associate to the left and bind tighter than \<open>+\<close>.
\<close>

datatype var = R_ap | Annulus_std | Flux_background_subtracted | Hdr string







section \<open>The velocity notebook\<close>

text \<open>
  \<^verbatim>\<open>
  vgeo = coords.radial_velocity_correction(
      kind="heliocentric", obstime=observation_time, location=observation_location
  ).to(u.km / u.s)
  v_corrected = v_sys - vgeo
  \<close>
  \<open>radial_velocity_correction\<close> is a function of \<open>astropy\<close>, taken as a parameter;
  velocities are in km/s.
\<close>

definition v_corrected :: "('c \<Rightarrow> 't \<Rightarrow> 'l \<Rightarrow> real) \<Rightarrow> 'c \<Rightarrow> 't \<Rightarrow> 'l \<Rightarrow> real \<Rightarrow> real" where
  "v_corrected radial_velocity_correction coords observation_time observation_location v_sys =
     (let vgeo = radial_velocity_correction coords observation_time observation_location
      in v_sys - vgeo)"

section \<open>Properties of the uncertainty\<close>




text \<open>
  The divisions are not guarded: a zero \<open>CALFCTR\<close> raises, and a zero flux gives a
  result that is not a finite number.
\<close>

lemma calc_sigma_m_zero_calfctr:
  assumes "h ''ERRCALF'' = Some e" and "h ''CALFCTR'' = Some 0"
  shows "calc_sigma_m r s F0 h = Inl ZeroDivisionError"
  using assms by (simp add: calc_sigma_m_def bind_e_def hdr_get_def py_truediv_def)

lemma calc_sigma_m_zero_flux:
  assumes "h ''ERRCALF'' = Some e" and "h ''CALFCTR'' = Some c" and "c \<noteq> 0"
  shows "calc_sigma_m r s 0 h = Inl NonFinite"
  using assms
  by (simp add: calc_sigma_m_def bind_e_def hdr_get_def py_truediv_def np_truediv_def)






section \<open>Properties of the photometry cells\<close>

lemmas cell_defs =
  cell_aperture_sum_def cell_annulus_def cell_background_def cell_annulus_std_def
  cell_sigma_m_def cell_absolute_uncertainty_def

lemmas run_defs =
  photometry_cells_def cell_defs get_aperture_sum_def Let_def bind_e_def var_def
  np_truediv_def np_std_def calc_sigma_m_def hdr_get_def py_truediv_def np_sqrt_def
  radicand_def loaded_session_def calc_absolute_uncertainty_def

lemma bind_e_InrD: "bind_e m f = Inr y \<Longrightarrow> \<exists>x. m = Inr x \<and> f x = Inr y"
  by (cases m) (simp_all add: bind_e_def)

lemma var_InrD: "var n v = Inr x \<Longrightarrow> v = Some x"
  by (cases v) (simp_all add: var_def)

subsection \<open>Background subtraction\<close>

lemma background_cells:
  assumes "aperture_area L (CircularAnnulus (pos_pix s) (background_aperture_inner_radius s)
             (background_aperture_outter_radius s)) \<noteq> 0"
  shows "run_cells [cell_aperture_sum L, cell_annulus L, cell_background L] s =
     Inr (s\<lparr>sum_jy := Some (aperture_photometry L (data0 s) (CircularAperture (pos_pix s) (r_ap s))),
            pix_aperture := Some (CircularAperture (pos_pix s) (r_ap s)),
            area := Some (aperture_area L (CircularAperture (pos_pix s) (r_ap s))),
            annulus_aperture := Some (CircularAnnulus (pos_pix s) (background_aperture_inner_radius s)
               (background_aperture_outter_radius s)),
            bkg_mean := Some (aperture_photometry L (data0 s)
                (CircularAnnulus (pos_pix s) (background_aperture_inner_radius s)
                   (background_aperture_outter_radius s))
              / aperture_area L (CircularAnnulus (pos_pix s) (background_aperture_inner_radius s)
                   (background_aperture_outter_radius s))),
            flux_background_subtracted := Some
              (aperture_photometry L (data0 s) (CircularAperture (pos_pix s) (r_ap s))
               - aperture_photometry L (data0 s)
                   (CircularAnnulus (pos_pix s) (background_aperture_inner_radius s)
                      (background_aperture_outter_radius s))
                 / aperture_area L (CircularAnnulus (pos_pix s) (background_aperture_inner_radius s)
                      (background_aperture_outter_radius s)))\<rparr>)"
  using assms
  by (simp add: cell_defs get_aperture_sum_def Let_def bind_e_def var_def np_truediv_def)

text \<open>
  C2. For every loaded image, aperture and background annulus (of nonzero area), the
  cells up to the background subtraction leave in \<open>flux_background_subtracted\<close> the
  aperture sum of the circular aperture minus the mean background per pixel, which is
  the aperture sum of the annulus divided by the area of the annulus.
\<close>

theorem background_subtraction:
  assumes "pix = CircularAperture (pos_pix s) (r_ap s)"
    and "ann = CircularAnnulus (pos_pix s) (background_aperture_inner_radius s)
                 (background_aperture_outter_radius s)"
    and "aperture_area L ann \<noteq> 0"
  shows "\<exists>s'. run_cells [cell_aperture_sum L, cell_annulus L, cell_background L] s = Inr s'
           \<and> sum_jy s' = Some (aperture_photometry L (data0 s) pix)
           \<and> bkg_mean s' = Some (aperture_photometry L (data0 s) ann / aperture_area L ann)
           \<and> flux_background_subtracted s' =
               Some (aperture_photometry L (data0 s) pix
                     - aperture_photometry L (data0 s) ann / aperture_area L ann)"
  using assms background_cells [of L s] by simp

theorem background_subtraction_witness:
  "\<exists>s'. run_cells
          [cell_aperture_sum
             \<lparr>aperture_photometry = (\<lambda>img ap. sum_list (concat img)),
              aperture_area = (\<lambda>ap. 4), to_mask_multiply = (\<lambda>ap img. img)\<rparr>,
           cell_annulus
             \<lparr>aperture_photometry = (\<lambda>img ap. sum_list (concat img)),
              aperture_area = (\<lambda>ap. 4), to_mask_multiply = (\<lambda>ap img. img)\<rparr>,
           cell_background
             \<lparr>aperture_photometry = (\<lambda>img ap. sum_list (concat img)),
              aperture_area = (\<lambda>ap. 4), to_mask_multiply = (\<lambda>ap img. img)\<rparr>]
          (loaded_session [[1, 1], [1, 1]] [''ERRCALF'' \<mapsto> 1, ''CALFCTR'' \<mapsto> 20]
             ''archive'' (1, 1)) = Inr s'
        \<and> sum_jy s' = Some 4 \<and> bkg_mean s' = Some 1
        \<and> flux_background_subtracted s' = Some 3"
  using background_subtraction
    [of "CircularAperture (1, 1) 12"
        "loaded_session [[1, 1], [1, 1]] [''ERRCALF'' \<mapsto> 1, ''CALFCTR'' \<mapsto> 20]
           ''archive'' (1, 1)"
        "CircularAnnulus (1, 1) 15 25"
        "\<lparr>aperture_photometry = (\<lambda>img ap. sum_list (concat img)),
          aperture_area = (\<lambda>ap. 4), to_mask_multiply = (\<lambda>ap img. img)\<rparr>"]
  by (simp add: loaded_session_def)

subsection \<open>What the cells leave untouched\<close>

lemma cell_frame:
  assumes "c \<in> set (photometry_cells L)" and "c s = Inr s'"
  shows "data0 s' = data0 s \<and> hdr s' = hdr s \<and> disk s' = disk s"
  using assms
  by (auto simp: photometry_cells_def cell_defs get_aperture_sum_def Let_def
      dest!: bind_e_InrD var_InrD)

text \<open>
  C7. The photometry and uncertainty cells read the image and the header and never
  change them: after any run of these cells, in any order and any number of times, the
  image array, the header and whatever persists outside the session are what they were.
\<close>

theorem photometry_frame:
  assumes "set cs \<subseteq> set (photometry_cells L)" and "run_cells cs s = Inr s'"
  shows "data0 s' = data0 s \<and> hdr s' = hdr s \<and> disk s' = disk s"
  using assms
proof (induction cs arbitrary: s)
  case Nil
  then show ?case by simp
next
  case (Cons c cs)
  from Cons.prems(2) obtain s1 where c: "c s = Inr s1" and rest: "run_cells cs s1 = Inr s'"
    by (auto dest: bind_e_InrD)
  from Cons.prems(1) have "c \<in> set (photometry_cells L)" and "set cs \<subseteq> set (photometry_cells L)"
    by simp_all
  with c rest Cons.IH [of s1] cell_frame [of c L s s1] show ?case by simp
qed

theorem photometry_frame_witness:
  "\<exists>s'. run_cells
          (photometry_cells
             \<lparr>aperture_photometry = (\<lambda>img ap. sum_list (concat img)),
              aperture_area = (\<lambda>ap. 4), to_mask_multiply = (\<lambda>ap img. img)\<rparr>)
          (loaded_session [[1, 1], [1, 1]] [''ERRCALF'' \<mapsto> 1, ''CALFCTR'' \<mapsto> 20]
             ''archive'' (1, 1)) = Inr s'
        \<and> data0 s' = [[1, 1], [1, 1]]
        \<and> hdr s' = [''ERRCALF'' \<mapsto> 1, ''CALFCTR'' \<mapsto> 20]
        \<and> disk s' = ''archive''"
proof -
  obtain s' where run:
    "run_cells
       (photometry_cells
          \<lparr>aperture_photometry = (\<lambda>img ap. sum_list (concat img)),
           aperture_area = (\<lambda>ap. 4), to_mask_multiply = (\<lambda>ap img. img)\<rparr>)
       (loaded_session [[1, 1], [1, 1]] [''ERRCALF'' \<mapsto> 1, ''CALFCTR'' \<mapsto> 20]
          ''archive'' (1, 1)) = Inr s'"
    by (simp add: run_defs)
  from photometry_frame [OF subset_refl run] run show ?thesis
    by (simp add: loaded_session_def)
qed

section \<open>Properties of the uncertainty expression as a program\<close>






section \<open>Properties of the velocity notebook\<close>

text \<open>
  C4, as stated: the corrected velocity is the systemic velocity minus the heliocentric
  correction, with the wind or expansion velocity included. With a systemic velocity of
  15 km/s, a correction of -12 km/s and a wind of 10 km/s that would be 37 km/s; the
  notebook computes 27 km/s.
\<close>

theorem v_corrected_counterexample:
  "v_corrected (\<lambda>coords t loc. - 12) () () () 15 \<noteq> 15 - (- 12) + 10"
  by (simp add: v_corrected_def)

text \<open>
  C4, amended. The corrected velocity is the systemic velocity minus the heliocentric
  correction, and nothing else: a wind or expansion velocity is not part of it, and the
  value that includes one differs from it by exactly that velocity.
\<close>

theorem v_corrected_value:
  "v_corrected rvc coords t loc v_sys = v_sys - rvc coords t loc
   \<and> (v_sys - rvc coords t loc + v_wind) - v_corrected rvc coords t loc v_sys = v_wind"
  by (simp add: v_corrected_def)

section \<open>Properties of float64 rounding\<close>

lemma pow2_pos [simp]: "0 < pow2 e"
  by (simp add: pow2_def)

lemma pow2_powr: "pow2 e = 2 powr (real_of_int e)"
proof (cases "0 \<le> e")
  case True
  then show ?thesis by (simp add: pow2_def powr_realpow [symmetric])
next
  case False
  have "(2::real) ^ nat (- e) = 2 powr real (nat (- e))" by (simp add: powr_realpow)
  also from False have "real (nat (- e)) = - real_of_int e" by simp
  finally have "pow2 e = 1 / 2 powr (- real_of_int e)" using False by (simp add: pow2_def)
  then show ?thesis by (simp add: powr_minus field_simps)
qed

lemma pow2_add: "pow2 (a + b) = pow2 a * pow2 b"
  by (simp add: pow2_powr powr_add)

lemma pow2_mono: "a \<le> b \<Longrightarrow> pow2 a \<le> pow2 b"
  by (simp add: pow2_powr)

lemma pow2_strict_mono: "a < b \<Longrightarrow> pow2 a < pow2 b"
  by (simp add: pow2_powr)

lemma pow2_nat: "pow2 (int n) = 2 ^ n"
  by (simp add: pow2_def)

lemma pow_le_floor:
  assumes "2 ^ n \<le> \<lfloor>x::real\<rfloor>"
  shows "2 ^ n \<le> x"
proof -
  have "(2::real) ^ n = real_of_int (2 ^ n)" by simp
  also have "\<dots> \<le> real_of_int \<lfloor>x\<rfloor>" using assms by (simp only: of_int_le_iff)
  also have "\<dots> \<le> x" by (rule of_int_floor_le)
  finally show ?thesis .
qed

lemma floor_less_pow:
  assumes "\<lfloor>x::real\<rfloor> < 2 ^ n"
  shows "x < 2 ^ n"
proof -
  from assms have "\<lfloor>x\<rfloor> + 1 \<le> 2 ^ n" by simp
  then have "real_of_int (\<lfloor>x\<rfloor> + 1) \<le> real_of_int (2 ^ n)" by (simp only: of_int_le_iff)
  then have "real_of_int \<lfloor>x\<rfloor> + 1 \<le> 2 ^ n" by simp
  then show ?thesis by linarith
qed

lemma ilog2_bounds:
  assumes "0 < x"
  shows "pow2 (ilog2 x) \<le> x \<and> x < pow2 (ilog2 x + 1)"
proof (cases "1 \<le> x")
  case True
  then have pos: "0 < \<lfloor>x\<rfloor>" by linarith
  from bitlen_bounds [OF pos] have lo: "2 ^ nat (bitlen \<lfloor>x\<rfloor> - 1) \<le> \<lfloor>x\<rfloor>"
    and hi: "\<lfloor>x\<rfloor> < 2 ^ nat (bitlen \<lfloor>x\<rfloor>)" by simp_all
  from pos have b1: "1 \<le> bitlen \<lfloor>x\<rfloor>" by (auto simp: bitlen_alt_def)
  from pow_le_floor [OF lo] b1 have A: "pow2 (bitlen \<lfloor>x\<rfloor> - 1) \<le> x"
    by (simp add: pow2_def)
  from floor_less_pow [OF hi] b1 have B: "x < pow2 (bitlen \<lfloor>x\<rfloor>)"
    by (simp add: pow2_def)
  from A B True show ?thesis by (simp add: ilog2_def)
next
  case False
  with assms have x1: "x < 1" and inv: "1 < 1 / x" by simp_all
  define j where "j = bitlen \<lfloor>1 / x\<rfloor> - 1"
  from inv have pos: "0 < \<lfloor>1 / x\<rfloor>" by linarith
  from pos have b1: "0 \<le> j" by (auto simp: bitlen_alt_def j_def)
  then have nj: "nat (bitlen \<lfloor>1 / x\<rfloor>) = Suc (nat j)" by (simp add: j_def nat_add_distrib)
  from bitlen_bounds [OF pos] have lo: "2 ^ nat j \<le> \<lfloor>1 / x\<rfloor>"
    and hi: "\<lfloor>1 / x\<rfloor> < 2 ^ Suc (nat j)" by (simp_all only: j_def nj)
  from pow_le_floor [OF lo] have A: "2 ^ nat j \<le> 1 / x" .
  from floor_less_pow [OF hi] have B: "1 / x < 2 ^ Suc (nat j)" .
  from A assms have A': "x * 2 ^ nat j \<le> 1"
    by (simp add: field_simps)
  from B assms have B': "1 < x * 2 ^ Suc (nat j)"
    by (simp add: field_simps)
  have pj: "pow2 (- j) = 1 / 2 ^ nat j" using b1 by (cases "j = 0") (simp_all add: pow2_def)
  have pj1: "pow2 (- j - 1) = 1 / 2 ^ Suc (nat j)" using b1 by (simp add: pow2_def nat_add_distrib)
  show ?thesis
  proof (cases "x * 2 ^ nat j = 1")
    case True
    then have eq: "pow2 (- j) = x" by (simp add: pj field_simps)
    have "pow2 (- j) < pow2 (- j + 1)" by (rule pow2_strict_mono) simp
    then have "pow2 (- j) \<le> x" and "x < pow2 (- j + 1)" by (simp_all only: eq)
    then show ?thesis using True x1 by (simp add: ilog2_def Let_def j_def [symmetric])
  next
    case ne: False
    with A' have "x * 2 ^ nat j < 1" by simp
    then have "x < pow2 (- j)" by (simp add: pj field_simps)
    moreover from B' have "pow2 (- j - 1) \<le> x" by (simp add: pj1 field_simps)
    ultimately show ?thesis using ne x1 by (simp add: ilog2_def Let_def j_def [symmetric])
  qed
qed

lemma pow2_nz [simp]: "pow2 e \<noteq> 0"
  using pow2_pos [of e] by linarith

lemma pow2_ge0 [simp]: "0 \<le> pow2 e"
  using pow2_pos [of e] by linarith

lemma ilog2_unique:
  assumes "pow2 k \<le> x" and "x < pow2 (k + 1)"
  shows "ilog2 x = k"
proof -
  have "0 < x" using assms(1) pow2_pos [of k] by linarith
  from ilog2_bounds [OF this] have lo: "pow2 (ilog2 x) \<le> x" and hi: "x < pow2 (ilog2 x + 1)"
    by simp_all
  have "\<not> k + 1 \<le> ilog2 x"
  proof
    assume "k + 1 \<le> ilog2 x"
    then have "pow2 (k + 1) \<le> pow2 (ilog2 x)" by (rule pow2_mono)
    with lo assms(2) show False by linarith
  qed
  moreover have "\<not> ilog2 x + 1 \<le> k"
  proof
    assume "ilog2 x + 1 \<le> k"
    then have "pow2 (ilog2 x + 1) \<le> pow2 k" by (rule pow2_mono)
    with hi assms(1) show False by linarith
  qed
  ultimately show ?thesis by linarith
qed

lemma round_even_err: "\<bar>real_of_int (round_even x) - x\<bar> \<le> 1 / 2"
  unfolding round_even_def Let_def by (auto simp: abs_le_iff)

lemma round_even_le:
  assumes "x \<le> real_of_int n"
  shows "round_even x \<le> n"
proof -
  from round_even_err [of x] have "real_of_int (round_even x) \<le> x + 1 / 2"
    by linarith
  with assms have "real_of_int (round_even x) < real_of_int (n + 1)" by simp
  then have "round_even x < n + 1" by (simp only: of_int_less_iff)
  then show ?thesis by simp
qed

lemma round_even_ge:
  assumes "real_of_int n \<le> x"
  shows "n \<le> round_even x"
proof -
  from round_even_err [of x] have "x - 1 / 2 \<le> real_of_int (round_even x)"
    by linarith
  with assms have "real_of_int (n - 1) < real_of_int (round_even x)" by simp
  then have "n - 1 < round_even x" by (simp only: of_int_less_iff)
  then show ?thesis by simp
qed

lemma rnd_err: "\<bar>rnd e x - x\<bar> \<le> pow2 e / 2"
proof -
  have "rnd e x - x = (of_int (round_even (x / pow2 e)) - x / pow2 e) * pow2 e"
    by (simp add: rnd_def field_simps)
  then have "\<bar>rnd e x - x\<bar> = \<bar>of_int (round_even (x / pow2 e)) - x / pow2 e\<bar> * pow2 e"
    by (simp add: abs_mult)
  also have "\<dots> \<le> 1 / 2 * pow2 e"
    by (rule mult_right_mono [OF round_even_err]) simp
  finally show ?thesis by simp
qed

lemma pow2_diff_int: "e \<le> b \<Longrightarrow> pow2 b / pow2 e = real_of_int (2 ^ nat (b - e))"
proof -
  assume "e \<le> b"
  then have "pow2 (b - e) = 2 ^ nat (b - e)" by (simp add: pow2_def)
  moreover have "pow2 b = pow2 (b - e) * pow2 e" by (simp add: pow2_add [symmetric])
  ultimately show ?thesis by simp
qed

lemma rnd_le:
  assumes "x \<le> pow2 b" and "e \<le> b"
  shows "rnd e x \<le> pow2 b"
proof -
  from assms(1) have "x / pow2 e \<le> pow2 b / pow2 e" by (rule divide_right_mono) simp
  then have "x / pow2 e \<le> real_of_int (2 ^ nat (b - e))" by (simp only: pow2_diff_int [OF assms(2)])
  then have "round_even (x / pow2 e) \<le> 2 ^ nat (b - e)" by (rule round_even_le)
  then have "real_of_int (round_even (x / pow2 e)) \<le> real_of_int (2 ^ nat (b - e))"
    by (simp only: of_int_le_iff)
  then have "real_of_int (round_even (x / pow2 e)) * pow2 e \<le> pow2 b / pow2 e * pow2 e"
    by (simp only: pow2_diff_int [OF assms(2)] mult_right_mono pow2_pos less_imp_le)
  then show ?thesis by (simp add: rnd_def)
qed

lemma rnd_ge:
  assumes "pow2 a \<le> x" and "e \<le> a"
  shows "pow2 a \<le> rnd e x"
proof -
  from assms(1) have "pow2 a / pow2 e \<le> x / pow2 e" by (rule divide_right_mono) simp
  then have "real_of_int (2 ^ nat (a - e)) \<le> x / pow2 e" by (simp only: pow2_diff_int [OF assms(2)])
  then have "2 ^ nat (a - e) \<le> round_even (x / pow2 e)" by (rule round_even_ge)
  then have "real_of_int (2 ^ nat (a - e)) \<le> real_of_int (round_even (x / pow2 e))"
    by (simp only: of_int_le_iff)
  then have "pow2 a / pow2 e * pow2 e \<le> real_of_int (round_even (x / pow2 e)) * pow2 e"
    by (simp only: pow2_diff_int [OF assms(2)] mult_right_mono pow2_pos less_imp_le)
  then show ?thesis by (simp add: rnd_def)
qed

lemma round_even_uminus: "round_even (- x) = - round_even x"
  unfolding round_even_def Let_def
  by (cases "x = of_int \<lfloor>x\<rfloor>") (auto simp: floor_minus ceiling_altdef split: if_splits)

lemma rnd_uminus: "rnd e (- x) = - rnd e x"
  by (simp add: rnd_def round_even_uminus)

lemma rnd_abs_le:
  assumes "\<bar>x\<bar> \<le> pow2 b" and "e \<le> b"
  shows "\<bar>rnd e x\<bar> \<le> pow2 b"
proof -
  from assms(1) have "x \<le> pow2 b" and "- x \<le> pow2 b" by simp_all
  from rnd_le [OF this(1) assms(2)] rnd_le [OF this(2) assms(2)]
  show ?thesis by (simp add: rnd_uminus abs_le_iff)
qed

lemma rnd_pos_ge:
  assumes "pow2 a \<le> x" and "e \<le> a"
  shows "pow2 a \<le> rnd e x" and "0 < rnd e x"
proof -
  show "pow2 a \<le> rnd e x" by (rule rnd_ge [OF assms])
  with pow2_pos [of a] show "0 < rnd e x" by linarith
qed

lemma rnd_neg_le:
  assumes "x \<le> - pow2 a" and "e \<le> a"
  shows "rnd e x \<le> - pow2 a" and "rnd e x < 0"
proof -
  from assms(1) have "pow2 a \<le> - x" by simp
  from rnd_ge [OF this assms(2)] show "rnd e x \<le> - pow2 a" by (simp add: rnd_uminus)
  with pow2_pos [of a] show "rnd e x < 0" by linarith
qed

lemma fl64_eq:
  assumes "x \<noteq> 0"
  shows "fl64 neg x =
     (let y = rnd (max (ilog2 \<bar>x\<bar>) (- 1022) - 52) x
      in if y = 0 then (if neg then NegZero else Finite 0)
         else if pow2 1024 \<le> \<bar>y\<bar> then (if 0 < x then PosInf else NegInf)
         else Finite y)"
  using assms by (simp add: fl64_def rnd_def Let_def)

lemma ilog2_le:
  assumes "0 < x" and "x \<le> pow2 b"
  shows "ilog2 x \<le> b"
proof (rule ccontr)
  assume "\<not> ilog2 x \<le> b"
  then have "b + 1 \<le> ilog2 x" by simp
  then have "pow2 (b + 1) \<le> pow2 (ilog2 x)" by (rule pow2_mono)
  moreover have "pow2 b < pow2 (b + 1)" by (rule pow2_strict_mono) simp
  ultimately show False using ilog2_bounds [OF assms(1)] assms(2) by linarith
qed

lemma ilog2_ge:
  assumes "pow2 a \<le> x"
  shows "a \<le> ilog2 x"
proof (rule ccontr)
  have pos: "0 < x" using assms pow2_pos [of a] by linarith
  assume "\<not> a \<le> ilog2 x"
  then have "ilog2 x + 1 \<le> a" by simp
  then have "pow2 (ilog2 x + 1) \<le> pow2 a" by (rule pow2_mono)
  then show False using ilog2_bounds [OF pos] assms by linarith
qed

lemma pow2_1023_less: "pow2 b < pow2 1024" if "b \<le> 1023"
  by (rule pow2_strict_mono) (use that in simp)

text \<open>Rounding a number of magnitude at most \<open>2\<^sup>b\<close> gives a zero or a finite number within the same bound.\<close>

lemma fl64_bounded:
  assumes "\<bar>x\<bar> \<le> pow2 b" and "- 1022 \<le> b" and "b \<le> 1023"
  shows "fl64 neg x = (if neg then NegZero else Finite 0)
       \<or> (\<exists>y. fl64 neg x = Finite y \<and> y \<noteq> 0 \<and> \<bar>y\<bar> \<le> pow2 b)"
proof (cases "x = 0")
  case True
  then show ?thesis by (simp add: fl64_def)
next
  case False
  define e where "e = max (ilog2 \<bar>x\<bar>) (- 1022) - 52"
  from False have "0 < \<bar>x\<bar>" by simp
  from ilog2_le [OF this assms(1)] assms(2) have "e \<le> b" by (simp add: e_def)
  from rnd_abs_le [OF assms(1) this] pow2_1023_less [OF assms(3)]
  have "\<bar>rnd e x\<bar> \<le> pow2 b" and "\<not> pow2 1024 \<le> \<bar>rnd e x\<bar>" by linarith+
  then show ?thesis using False by (simp add: fl64_eq Let_def e_def [symmetric])
qed

text \<open>In the normal range rounding keeps the sign and the binade bounds, with relative error \<open>2\<^sup>-\<^sup>5\<^sup>3\<close>.\<close>

lemma fl64_normal:
  assumes "pow2 a \<le> \<bar>x\<bar>" and "\<bar>x\<bar> \<le> pow2 b" and "- 1022 \<le> a" and "b \<le> 1023"
  shows "\<exists>y. fl64 neg x = Finite y \<and> pow2 a \<le> \<bar>y\<bar> \<and> \<bar>y\<bar> \<le> pow2 b
           \<and> \<bar>y - x\<bar> \<le> \<bar>x\<bar> / 2 ^ 53 \<and> (0 < y) = (0 < x)"
proof -
  have nz: "x \<noteq> 0" using assms(1) pow2_pos [of a] by (cases "x = 0") simp_all
  then have pos: "0 < \<bar>x\<bar>" by simp
  define k where "k = ilog2 \<bar>x\<bar>"
  define e where "e = k - 52"
  from ilog2_ge [OF assms(1)] assms(3) have ak: "a \<le> k" and "- 1022 \<le> k" by (simp_all add: k_def)
  then have e: "max (ilog2 \<bar>x\<bar>) (- 1022) - 52 = e" by (simp add: e_def k_def)
  from ilog2_le [OF pos assms(2)] have kb: "k \<le> b" by (simp add: k_def)
  from ilog2_bounds [OF pos] have klo: "pow2 k \<le> \<bar>x\<bar>" by (simp add: k_def)
  have ek: "e \<le> k" and eb: "e \<le> b" using kb by (simp_all add: e_def)
  from rnd_abs_le [OF assms(2) eb] have ub: "\<bar>rnd e x\<bar> \<le> pow2 b" .
  with pow2_1023_less [OF assms(4)] have nov: "\<not> pow2 1024 \<le> \<bar>rnd e x\<bar>" by linarith
  have lbk: "pow2 k \<le> \<bar>rnd e x\<bar> \<and> (0 < rnd e x) = (0 < x)"
  proof (cases "0 < x")
    case True
    with klo have "pow2 k \<le> x" by simp
    from rnd_pos_ge [OF this ek] True show ?thesis by simp
  next
    case False
    with klo nz have "x \<le> - pow2 k" by simp
    from rnd_neg_le [OF this ek] False show ?thesis by simp
  qed
  with pow2_mono [OF ak] have lb: "pow2 a \<le> \<bar>rnd e x\<bar> \<and> (0 < rnd e x) = (0 < x)" by linarith
  have "0 < pow2 a" by simp
  with lb have "0 < \<bar>rnd e x\<bar>" by linarith
  then have ynz: "rnd e x \<noteq> 0" by simp
  have "pow2 e / 2 = pow2 k / 2 ^ 53"
  proof -
    have "pow2 k = pow2 e * pow2 52" by (simp add: e_def pow2_add [symmetric])
    moreover have "pow2 52 = 2 ^ 52" by (simp add: pow2_def)
    ultimately show ?thesis by simp
  qed
  also have "\<dots> \<le> \<bar>x\<bar> / 2 ^ 53" using klo by (simp add: divide_right_mono)
  finally have "\<bar>rnd e x - x\<bar> \<le> \<bar>x\<bar> / 2 ^ 53" using rnd_err [of e x] by linarith
  with ub nov lb ynz show ?thesis using nz by (simp add: fl64_eq Let_def e)
qed

lemma fl64_overflow:
  assumes "pow2 1024 \<le> \<bar>x\<bar>"
  shows "fl64 neg x = (if 0 < x then PosInf else NegInf)"
proof -
  have nz: "x \<noteq> 0" using assms pow2_pos [of 1024] by (cases "x = 0") simp_all
  define e where "e = max (ilog2 \<bar>x\<bar>) (- 1022) - 52"
  from ilog2_ge [OF assms] have "1024 \<le> ilog2 \<bar>x\<bar>" .
  then have ea: "e \<ge> 1024 - 52" by (simp add: e_def)
  have lb: "pow2 1024 \<le> \<bar>rnd e x\<bar>"
  proof -
    define k where "k = ilog2 \<bar>x\<bar>"
    from nz have "0 < \<bar>x\<bar>" by simp
    from ilog2_bounds [OF this] have klo: "pow2 k \<le> \<bar>x\<bar>" by (simp add: k_def)
    from \<open>1024 \<le> ilog2 \<bar>x\<bar>\<close> have k: "1024 \<le> k" and ek: "e \<le> k" by (simp_all add: k_def e_def)
    have "pow2 k \<le> \<bar>rnd e x\<bar>"
    proof (cases "0 < x")
      case True
      with klo have "pow2 k \<le> x" by simp
      from rnd_pos_ge [OF this ek] show ?thesis by simp
    next
      case False
      with klo nz have "x \<le> - pow2 k" by simp
      from rnd_neg_le [OF this ek] show ?thesis by simp
    qed
    with pow2_mono [OF k] show ?thesis by linarith
  qed
  moreover have "0 < pow2 1024" by simp
  ultimately have "0 < \<bar>rnd e x\<bar>" by linarith
  then have "rnd e x \<noteq> 0" by simp
  with lb nz show ?thesis by (simp add: fl64_eq Let_def e_def [symmetric])
qed

lemma pow2_numeral_simps:
  "pow2 1 = 2" "pow2 2 = 4" "pow2 3 = 8" "pow2 0 = 1"
  by (simp_all add: pow2_def)

lemma pow2_sq: "pow2 a * pow2 a = pow2 (2 * a)"
  by (simp add: pow2_add [symmetric])

lemma rnd_nonneg:
  assumes "0 \<le> x"
  shows "0 \<le> rnd e x"
proof -
  from assms have "real_of_int 0 \<le> x / pow2 e" by simp
  then have "0 \<le> round_even (x / pow2 e)" by (rule round_even_ge)
  then show ?thesis by (simp add: rnd_def)
qed

lemma fl64_nonneg:
  assumes "0 \<le> x" and "fl64 neg x = Finite v"
  shows "0 \<le> v"
proof (cases "x = 0")
  case True
  with assms(2) show ?thesis by (simp add: fl64_def split: if_splits)
next
  case False
  with assms(2) rnd_nonneg [OF assms(1), of "max (ilog2 \<bar>x\<bar>) (- 1022) - 52"]
  show ?thesis by (simp add: fl64_eq Let_def split: if_splits)
qed






section \<open>Properties of the uncertainty cells on float64 values\<close>

subsection \<open>Exceptions of the relative uncertainty\<close>

lemma py_pow2_overflow:
  assumes "pow2 512 \<le> \<bar>y\<bar>"
  shows "py_pow2 (Finite y) = Inl OverflowError"
proof -
  have "pow2 512 * pow2 512 \<le> \<bar>y\<bar> * \<bar>y\<bar>"
    by (rule mult_mono [OF assms assms]) simp_all
  then have big: "pow2 1024 \<le> \<bar>y * y\<bar>" by (simp add: pow2_sq abs_mult)
  have "0 < pow2 1024" by simp
  with big have "0 < \<bar>y * y\<bar>" by linarith
  moreover have "0 \<le> y * y" by simp
  ultimately have "0 < y * y" by linarith
  with fl64_overflow [OF big, of False] have "fl64 False (y * y) = PosInf" by simp
  then show ?thesis by (simp add: py_pow2_def fmul_def)
qed

lemma py_pow2_finite:
  assumes "\<bar>y\<bar> \<le> pow2 511"
  shows "\<exists>v. py_pow2 (Finite y) = Inr (Finite v) \<and> 0 \<le> v"
proof -
  have "\<bar>y\<bar> * \<bar>y\<bar> \<le> pow2 511 * pow2 511"
    by (rule mult_mono [OF assms assms]) simp_all
  then have le: "\<bar>y * y\<bar> \<le> pow2 1022" by (simp add: pow2_sq abs_mult)
  show ?thesis
  proof (cases "\<bar>y * y\<bar> < pow2 (- 1022)")
    case False
    then have "pow2 (- 1022) \<le> \<bar>y * y\<bar>" by simp
    from fl64_normal [OF this le, of False] obtain v where
      "fl64 False (y * y) = Finite v" and "(0 < v) = (0 < y * y)" by auto
    moreover have "0 < y * y"
    proof -
      have "0 < pow2 (- 1022)" by simp
      with \<open>pow2 (- 1022) \<le> \<bar>y * y\<bar>\<close> have "0 < \<bar>y * y\<bar>" by linarith
      moreover have "0 \<le> y * y" by simp
      ultimately show ?thesis by linarith
    qed
    ultimately have "fl64 False (y * y) = Finite v" and "0 \<le> v" by simp_all
    then show ?thesis
      by (simp add: py_pow2_def fmul_def Let_def)
  next
    case True
    then have small: "\<bar>y * y\<bar> \<le> pow2 (- 1022)" by simp
    have "(- 1022 :: int) \<le> - 1022" "(- 1022 :: int) \<le> 1023" by simp_all
    from fl64_bounded [OF small this, of False]
    obtain v where v: "fl64 False (y * y) = Finite v" by auto
    have "0 \<le> y * y" by simp
    from fl64_nonneg [OF this v] have "0 \<le> v" .
    with v show ?thesis by (auto simp: py_pow2_def fmul_def Let_def)
  qed
qed

lemma py_pow2_negzero: "py_pow2 NegZero = Inr (Finite 0)"
  by (simp add: py_pow2_def fmul_def fl64_def)

lemma py_pow2_literal: "\<exists>v. py_pow2 (fl64 False 0.05) = Inr (Finite v) \<and> 0 \<le> v"
proof -
  have "pow2 (- 5) \<le> \<bar>0.05 :: real\<bar>" "\<bar>0.05 :: real\<bar> \<le> pow2 (- 4)" by (simp_all add: pow2_def)
  from fl64_normal [OF this, of False] obtain y where
    y: "fl64 False 0.05 = Finite y" and "\<bar>y\<bar> \<le> pow2 (- 4)" by auto
  moreover have "pow2 (- 4) \<le> pow2 511" by (rule pow2_mono) simp
  ultimately have "\<bar>y\<bar> \<le> pow2 511" by linarith
  from py_pow2_finite [OF this] y show ?thesis by simp
qed

lemma two_pi_f64: "\<exists>t. fmul (Finite 2) (fl64 False pi) = Finite t \<and> 0 < t"
proof -
  have "pow2 1 \<le> \<bar>pi\<bar>" "\<bar>pi\<bar> \<le> pow2 2"
    using pi_ge_two pi_less_4 by (simp_all add: pow2_numeral_simps)
  from fl64_normal [OF this, of False] obtain p where
    p: "fl64 False pi = Finite p" and lo: "pow2 1 \<le> \<bar>p\<bar>" and hi: "\<bar>p\<bar> \<le> pow2 2" and "(0 < p) = (0 < pi)"
    by auto
  then have pos: "0 < p" by simp
  with lo hi have "pow2 2 \<le> \<bar>2 * p\<bar>" "\<bar>2 * p\<bar> \<le> pow2 3" by (simp_all add: pow2_numeral_simps)
  from fl64_normal [OF this, of False] obtain t where
    "fl64 False (2 * p) = Finite t" and "(0 < t) = (0 < 2 * p)" by auto
  with p pos show ?thesis by (simp add: fmul_def)
qed

lemma py_truediv_f64_nonzero:
  "c \<noteq> 0 \<Longrightarrow> py_truediv_f64 e c = Inr (fl64 ((e < 0) \<noteq> (c < 0)) (e / c))"
  by (simp add: py_truediv_f64_def fdiv_def)

lemma sigma_m_f64_zero_calfctr:
  assumes "h ''ERRCALF'' = Some e" and "h ''CALFCTR'' = Some 0"
  shows "sigma_m_f64 r s F h = Inl ZeroDivisionError"
  using assms by (simp add: sigma_m_f64_def Let_def bind_e_def hdr_get_def py_truediv_f64_def)

lemma sigma_m_f64_overflow:
  assumes "h ''ERRCALF'' = Some e" and "h ''CALFCTR'' = Some c" and "c \<noteq> 0"
    and "pow2 512 \<le> \<bar>e / c\<bar>" and "\<bar>e / c\<bar> \<le> pow2 1023"
  shows "sigma_m_f64 r s F h = Inl OverflowError"
proof -
  have "(512 :: int) \<ge> - 1022" "(1023 :: int) \<le> 1023" by simp_all
  from fl64_normal [OF assms(4,5) this, of "(e < 0) \<noteq> (c < 0)"] obtain y where
    "fl64 ((e < 0) \<noteq> (c < 0)) (e / c) = Finite y" and "pow2 512 \<le> \<bar>y\<bar>" by auto
  with assms(1-3) py_pow2_overflow [of y] show ?thesis
    by (simp add: sigma_m_f64_def Let_def bind_e_def hdr_get_def py_truediv_f64_nonzero)
qed

lemma ratio_square:
  assumes "\<bar>x\<bar> \<le> pow2 511"
  shows "\<exists>v. py_pow2 (fl64 neg x) = Inr (Finite v) \<and> 0 \<le> v"
proof -
  have "(- 1022 :: int) \<le> 511" "(511 :: int) \<le> 1023" by simp_all
  from fl64_bounded [OF assms this, of neg] show ?thesis
  proof (elim disjE exE conjE)
    assume "fl64 neg x = (if neg then NegZero else Finite 0)"
    then show ?thesis using py_pow2_negzero py_pow2_finite [of 0] by (cases neg) simp_all
  next
    fix y assume "fl64 neg x = Finite y" and "\<bar>y\<bar> \<le> pow2 511"
    then show ?thesis using py_pow2_finite [of y] by simp
  qed
qed

lemma fdiv_zero_divisor:
  assumes "is_zero F"
  shows "fdiv a F = NaN \<or> fdiv a F = PosInf \<or> fdiv a F = NegInf"
  using assms by (cases F) (auto simp: fdiv_def inf_of_def)

lemma fmul_self_nonfinite:
  assumes "x = NaN \<or> x = PosInf \<or> x = NegInf"
  shows "fmul x x = NaN \<or> fmul x x = PosInf"
  using assms by (auto simp: fmul_def inf_of_def)

lemma fmul_NaN_right: "fmul a NaN = NaN"
  by (simp add: fmul_def)

lemma fmul_pos_PosInf: "0 < t \<Longrightarrow> fmul (Finite t) PosInf = PosInf"
  by (simp add: fmul_def inf_of_def)

lemma fadd_NaN_left: "fadd NaN b = NaN"
  by (simp add: fadd_def)

lemma fadd_PosInf_Finite: "fadd PosInf (Finite b) = PosInf"
  by (simp add: fadd_def)

lemma sigma_m_f64_tail:
  assumes "0 < t" and "y = NaN \<or> y = PosInf"
  shows "fsqrt (fadd (fadd (fmul (Finite t) y) (Finite q2)) (Finite m2)) = NaN
       \<or> fsqrt (fadd (fadd (fmul (Finite t) y) (Finite q2)) (Finite m2)) = PosInf"
  using assms(2)
proof
  assume "y = NaN"
  then show ?thesis by (simp add: fmul_NaN_right fadd_NaN_left)
next
  assume "y = PosInf"
  then show ?thesis using assms(1) by (simp add: fmul_pos_PosInf fadd_PosInf_Finite)
qed

lemma sigma_m_f64_value:
  assumes "h ''ERRCALF'' = Some e" and "h ''CALFCTR'' = Some c" and "c \<noteq> 0"
    and "\<bar>e / c\<bar> \<le> pow2 511"
  shows "\<exists>v. sigma_m_f64 r s F h = Inr v \<and> (is_zero F \<longrightarrow> v = PosInf \<or> v = NaN)"
proof -
  from ratio_square [OF assms(4)] obtain q2 where
    q2: "py_pow2 (fl64 ((e < 0) \<noteq> (c < 0)) (e / c)) = Inr (Finite q2)" and q2pos: "0 \<le> q2" by blast
  from py_pow2_literal obtain m2 where
    m2: "py_pow2 (fl64 False 0.05) = Inr (Finite m2)" and m2pos: "0 \<le> m2" by blast
  from two_pi_f64 obtain t where
    t: "fmul (Finite 2) (fl64 False pi) = Finite t" and tpos: "0 < t" by blast
  define x where "x = fdiv (fmul r s) F"
  have eq: "sigma_m_f64 r s F h =
      Inr (fsqrt (fadd (fadd (fmul (Finite t) (fmul x x)) (Finite q2)) (Finite m2)))"
    using assms(1-3) q2 m2 t
    by (simp add: sigma_m_f64_def Let_def bind_e_def hdr_get_def py_truediv_f64_nonzero x_def)
  have "is_zero F \<longrightarrow>
      fsqrt (fadd (fadd (fmul (Finite t) (fmul x x)) (Finite q2)) (Finite m2)) = PosInf
      \<or> fsqrt (fadd (fadd (fmul (Finite t) (fmul x x)) (Finite q2)) (Finite m2)) = NaN"
  proof
    assume "is_zero F"
    from fmul_self_nonfinite [OF fdiv_zero_divisor [OF this, of "fmul r s"]]
    have "fmul x x = NaN \<or> fmul x x = PosInf" by (simp add: x_def)
    from sigma_m_f64_tail [OF tpos this, of q2 m2]
    show "fsqrt (fadd (fadd (fmul (Finite t) (fmul x x)) (Finite q2)) (Finite m2)) = PosInf
      \<or> fsqrt (fadd (fadd (fmul (Finite t) (fmul x x)) (Finite q2)) (Finite m2)) = NaN"
      by blast
  qed
  with eq show ?thesis by simp
qed


text \<open>
  C8, as stated: with a nonzero background-subtracted flux, a nonzero \<open>CALFCTR\<close> and a
  nonnegative radicand the computation is total and no error is reachable. With flux 1,
  \<open>CALFCTR\<close> 1 and \<open>ERRCALF\<close> \<open>2\<^sup>6\<^sup>0\<^sup>0\<close> the square of the quotient of the two header
  values overflows, and the cell raises \<open>OverflowError\<close>.
\<close>

theorem sigma_m_f64_counterexample:
  "sigma_m_f64 (Finite 12) (Finite 1) (Finite 1) [''ERRCALF'' \<mapsto> 2 ^ 600, ''CALFCTR'' \<mapsto> 1]
     = Inl OverflowError"
proof -
  have "pow2 512 \<le> pow2 600" "pow2 600 \<le> pow2 1023" by (rule pow2_mono, simp)+
  moreover have "pow2 600 = 2 ^ 600" using pow2_nat [of 600] by simp
  ultimately have "pow2 512 \<le> \<bar>2 ^ 600 / 1 :: real\<bar>" "\<bar>2 ^ 600 / 1 :: real\<bar> \<le> pow2 1023"
    by simp_all
  then show ?thesis
    by (intro sigma_m_f64_overflow [where e = "2 ^ 600" and c = 1]) simp_all
qed


text \<open>
  C8, amended. The relative-uncertainty computation divides by the background-subtracted
  flux and by \<open>CALFCTR\<close> without a guard: a zero \<open>CALFCTR\<close> raises
  \<open>ZeroDivisionError\<close>, and a zero flux gives an infinity or nan. With a nonzero
  \<open>CALFCTR\<close> and a quotient \<open>ERRCALF / CALFCTR\<close> of magnitude at most \<open>2\<^sup>5\<^sup>1\<^sup>1\<close>, so
  that its square does not overflow, the computation raises no exception and returns a
  float64 value; with a quotient of magnitude from \<open>2\<^sup>5\<^sup>1\<^sup>2\<close> to \<open>2\<^sup>1\<^sup>0\<^sup>2\<^sup>3\<close> it raises
  \<open>OverflowError\<close>.
\<close>

theorem sigma_m_f64_exceptions:
  assumes "h ''ERRCALF'' = Some ERRCALF" and "h ''CALFCTR'' = Some CALFCTR"
  shows "(CALFCTR = 0 \<longrightarrow> sigma_m_f64 r sB F h = Inl ZeroDivisionError)
       \<and> (CALFCTR \<noteq> 0 \<and> pow2 512 \<le> \<bar>ERRCALF / CALFCTR\<bar> \<and> \<bar>ERRCALF / CALFCTR\<bar> \<le> pow2 1023
            \<longrightarrow> sigma_m_f64 r sB F h = Inl OverflowError)
       \<and> (CALFCTR \<noteq> 0 \<and> \<bar>ERRCALF / CALFCTR\<bar> \<le> pow2 511
            \<longrightarrow> (\<exists>v. sigma_m_f64 r sB F h = Inr v \<and> (is_zero F \<longrightarrow> v = PosInf \<or> v = NaN)))"
  using assms sigma_m_f64_zero_calfctr [of h ERRCALF r sB F]
    sigma_m_f64_overflow [of h ERRCALF CALFCTR r sB F]
    sigma_m_f64_value [of h ERRCALF CALFCTR r sB F]
  by blast


theorem sigma_m_f64_exceptions_witness:
  "sigma_m_f64 (Finite 12) (Finite 1) (Finite 50) [''ERRCALF'' \<mapsto> 1, ''CALFCTR'' \<mapsto> 0]
      = Inl ZeroDivisionError
   \<and> sigma_m_f64 (Finite 12) (Finite 1) (Finite 50) [''ERRCALF'' \<mapsto> 2 ^ 600, ''CALFCTR'' \<mapsto> 1]
      = Inl OverflowError
   \<and> (\<exists>v. sigma_m_f64 (Finite 12) (Finite 1) (Finite 0) [''ERRCALF'' \<mapsto> 1, ''CALFCTR'' \<mapsto> 20]
            = Inr v \<and> (v = PosInf \<or> v = NaN))"
proof -
  have "pow2 512 \<le> pow2 600" "pow2 600 \<le> pow2 1023" "pow2 0 \<le> pow2 511"
    by (rule pow2_mono, simp)+
  moreover have "pow2 600 = 2 ^ 600" using pow2_nat [of 600] by simp
  ultimately have b: "pow2 512 \<le> \<bar>2 ^ 600 / 1 :: real\<bar>" "\<bar>2 ^ 600 / 1 :: real\<bar> \<le> pow2 1023"
    "\<bar>1 / 20 :: real\<bar> \<le> pow2 511"
    by (simp_all add: pow2_numeral_simps)
  from sigma_m_f64_exceptions
    [of "[''ERRCALF'' \<mapsto> 1, ''CALFCTR'' \<mapsto> 0]" 1 0 "Finite 12" "Finite 1" "Finite 50"]
  have 1: "sigma_m_f64 (Finite 12) (Finite 1) (Finite 50) [''ERRCALF'' \<mapsto> 1, ''CALFCTR'' \<mapsto> 0]
      = Inl ZeroDivisionError" by simp
  from b sigma_m_f64_exceptions
    [of "[''ERRCALF'' \<mapsto> 2 ^ 600, ''CALFCTR'' \<mapsto> 1]" "2 ^ 600" 1 "Finite 12" "Finite 1" "Finite 50"]
  have 2: "sigma_m_f64 (Finite 12) (Finite 1) (Finite 50) [''ERRCALF'' \<mapsto> 2 ^ 600, ''CALFCTR'' \<mapsto> 1]
      = Inl OverflowError" by simp
  from b sigma_m_f64_exceptions
    [of "[''ERRCALF'' \<mapsto> 1, ''CALFCTR'' \<mapsto> 20]" 1 20 "Finite 12" "Finite 1" "Finite 0"]
  have 3: "\<exists>v. sigma_m_f64 (Finite 12) (Finite 1) (Finite 0) [''ERRCALF'' \<mapsto> 1, ''CALFCTR'' \<mapsto> 20]
            = Inr v \<and> (v = PosInf \<or> v = NaN)" by simp
  from 1 2 3 show ?thesis by blast
qed

subsection \<open>Absolute uncertainty\<close>











end
